theory Spec2Isabelle
  imports Complex_Main "HOL-Library.Product_Lexorder" "HOL-Library.Multiset"
begin

section \<open>Python values used by demo.py\<close>

text \<open>
  Identifiers and lines are Python \<open>str\<close> values, modelled as HOL strings (lists of
  characters).  The exceptions that the functions of demo.py can raise are values of
  \<open>error\<close>; a function that can raise returns \<open>error + 'a\<close>, \<open>Inl\<close> carrying the
  exception.  Python floats are idealised as real numbers.
\<close>

datatype error = ValueError | ZeroDivisionError | IndexError

definition bind_err :: "error + 'a \<Rightarrow> ('a \<Rightarrow> error + 'b) \<Rightarrow> error + 'b" where
  "bind_err m f = (case m of Inl e \<Rightarrow> Inl e | Inr v \<Rightarrow> f v)"

fun map_err :: "('a \<Rightarrow> error + 'b) \<Rightarrow> 'a list \<Rightarrow> error + 'b list" where
  "map_err f [] = Inr []"
| "map_err f (x # xs) =
     (case f x of Inl e \<Rightarrow> Inl e
      | Inr y \<Rightarrow> (case map_err f xs of Inl e \<Rightarrow> Inl e | Inr ys \<Rightarrow> Inr (y # ys)))"

subsection \<open>\<open>str.startswith\<close>, \<open>str.split\<close>, \<open>int\<close>\<close>

definition startswith :: "string \<Rightarrow> string \<Rightarrow> bool" where
  "startswith s p = (take (length p) s = p)"

text \<open>\<open>s.split(sep)\<close> for a separator of one character: always at least one field.\<close>

fun str_split :: "string \<Rightarrow> char \<Rightarrow> string list" where
  "str_split [] sep = [[]]"
| "str_split (c # cs) sep =
     (if c = sep then [] # str_split cs sep
      else (case str_split cs sep of [] \<Rightarrow> [[c]] | l # ls \<Rightarrow> (c # l) # ls))"

text \<open>
  \<open>int(s)\<close> on a string: surrounding ASCII whitespace is dropped, one sign is allowed,
  then decimal digits follow, single underscores allowed between two digits.  Anything
  else raises \<open>ValueError\<close>.
\<close>

definition is_space :: "char \<Rightarrow> bool" where
  "is_space c = (c \<in> set [CHR 0x09, CHR 0x0A, CHR 0x0B, CHR 0x0C, CHR 0x0D, CHR '' ''])"

definition is_digit :: "char \<Rightarrow> bool" where
  "is_digit c = (c \<in> set ''0123456789'')"

definition digit_val :: "char \<Rightarrow> nat" where
  "digit_val c = of_char c - 48"

definition strip :: "string \<Rightarrow> string" where
  "strip s = rev (dropWhile is_space (rev (dropWhile is_space s)))"

fun parse_digits :: "nat \<Rightarrow> string \<Rightarrow> nat option" where
  "parse_digits acc [] = Some acc"
| "parse_digits acc [c] = (if is_digit c then Some (acc * 10 + digit_val c) else None)"
| "parse_digits acc (c # d # cs) =
     (if c = CHR ''_'' then
        (if is_digit d then parse_digits (acc * 10 + digit_val d) cs else None)
      else if is_digit c then parse_digits (acc * 10 + digit_val c) (d # cs)
      else None)"

definition parse_nat :: "string \<Rightarrow> nat option" where
  "parse_nat s = (case s of [] \<Rightarrow> None
     | c # cs \<Rightarrow> if is_digit c then parse_digits (digit_val c) cs else None)"

definition py_int :: "string \<Rightarrow> error + int" where
  "py_int s =
     (case strip s of
        [] \<Rightarrow> Inl ValueError
      | c # cs \<Rightarrow>
          (case (if c = CHR ''-'' \<or> c = CHR ''+'' then parse_nat cs else parse_nat (c # cs)) of
             None \<Rightarrow> Inl ValueError
           | Some n \<Rightarrow> Inr (if c = CHR ''-'' then - int n else int n)))"

section \<open>Layer and head of a node identifier\<close>

definition get_layer :: "string \<Rightarrow> error + int" where
  "get_layer node =
     (if startswith node ''m'' then py_int (hd (str_split (drop 1 node) CHR ''-''))
      else if startswith node ''a'' then py_int (hd (str_split (drop 1 node) CHR ''.''))
      else Inr 100)"

definition get_attention_head :: "string \<Rightarrow> error + int" where
  "get_attention_head node =
     (if startswith node ''a'' then py_int (last (str_split node CHR ''.''))
      else Inr (- 1))"

section \<open>Graph parser\<close>

text \<open>
  The compiled pattern of \<open>gv_to_edges\<close> is
  \<^verbatim>\<open>\"<(.+?)>\" -> \"<(.+?)>\"\<close>: the literal \<open>lit_open\<close>, a lazy non-empty group of
  characters other than newline, the literal \<open>lit_arrow\<close>, a second such group, and the
  literal \<open>lit_close\<close>.  \<open>search\<close> scans the line from the left and, at each start,
  lets each lazy group grow one character at a time, backtracking into the first group
  when the second cannot be completed.
\<close>

definition LF :: char where "LF = CHR 0x0A"
definition CR :: char where "CR = CHR 0x0D"

definition lit_open :: string where \<open>lit_open = ''"<''\<close>
definition lit_arrow :: string where \<open>lit_arrow = ''>" -> "<''\<close>
definition lit_close :: string where \<open>lit_close = ''>"''\<close>

fun group2 :: "string \<Rightarrow> string \<Rightarrow> string option" where
  "group2 acc [] = None"
| "group2 acc (c # cs) =
     (if c = LF then None
      else if startswith cs lit_close then Some (acc @ [c])
      else group2 (acc @ [c]) cs)"

fun group1 :: "string \<Rightarrow> string \<Rightarrow> (string \<times> string) option" where
  "group1 acc [] = None"
| "group1 acc (c # cs) =
     (if c = LF then None
      else if startswith cs lit_arrow then
        (case group2 [] (drop (length lit_arrow) cs) of
           Some b \<Rightarrow> Some (acc @ [c], b)
         | None \<Rightarrow> group1 (acc @ [c]) cs)
      else group1 (acc @ [c]) cs)"

fun search :: "string \<Rightarrow> (string \<times> string) option" where
  "search [] = None"
| "search (c # cs) =
     (if startswith (c # cs) lit_open then
        (case group1 [] (drop (length lit_open) (c # cs)) of
           Some m \<Rightarrow> Some m
         | None \<Rightarrow> search cs)
      else search cs)"

text \<open>
  The two ways \<open>gv_to_edges\<close> obtains its lines.  A \<open>str\<close> argument is a path: the
  file is opened in text mode, where \<open>\r\n\<close> and \<open>\r\<close> are read as \<open>\n\<close>, and
  \<open>readlines\<close> keeps the newline at the end of each line.  Any other argument is an
  uploaded buffer, decoded and split at \<open>\n\<close>.  The argument is modelled by the text
  it designates: the decoded characters of the file, or of the buffer.
\<close>

datatype gv_file = Path string | UploadedFile string

fun universal_newlines :: "string \<Rightarrow> string" where
  "universal_newlines [] = []"
| "universal_newlines [c] = (if c = CR then [LF] else [c])"
| "universal_newlines (c # d # cs) =
     (if c = CR then (if d = LF then LF # universal_newlines cs
                      else LF # universal_newlines (d # cs))
      else c # universal_newlines (d # cs))"

fun readlines :: "string \<Rightarrow> string list" where
  "readlines [] = []"
| "readlines (c # cs) =
     (if c = LF then [LF] # readlines cs
      else (case readlines cs of [] \<Rightarrow> [[c]] | l # ls \<Rightarrow> (c # l) # ls))"

fun edges_loop :: "(string \<times> string) list \<Rightarrow> string list \<Rightarrow> (string \<times> string) list" where
  "edges_loop edges [] = edges"
| "edges_loop edges (line # rest) =
     (case search line of
        Some m \<Rightarrow> edges_loop (edges @ [(fst m, snd m)]) rest
      | None \<Rightarrow> edges_loop edges rest)"

definition input_lines :: "gv_file \<Rightarrow> string list" where
  "input_lines gv =
     (case gv of
        Path text \<Rightarrow> readlines (universal_newlines text)
      | UploadedFile text \<Rightarrow> str_split text LF)"

definition gv_to_edges :: "gv_file \<Rightarrow> (string \<times> string) list" where
  "gv_to_edges gv = edges_loop [] (input_lines gv)"


text \<open>A text in which every carriage return is followed at once by a line feed.\<close>

fun crlf_only :: "string \<Rightarrow> bool" where
  "crlf_only [] = True"
| "crlf_only [c] = (c \<noteq> CR)"
| "crlf_only (c # d # cs) = (if c = CR then d = LF \<and> crlf_only cs else crlf_only (d # cs))"

section \<open>Layout engine\<close>

subsection \<open>Elements\<close>

datatype style_value = Str string | Num int

type_synonym style = "(string \<times> style_value) list"

datatype element =
    NodeElement (el_id: string) (label: string) (el_type: string)
      (pos_x: real) (pos_y: real) (el_style: style)
  | EdgeElement (el_id: string) (source: string) (target: string) (el_type: string)
      (animated: bool) (el_style: style)

definition centered :: "string \<Rightarrow> int \<Rightarrow> style" where
  "centered bg w = [(''background'', Str bg), (''width'', Num w), (''display'', Str ''flex''),
     (''justifyContent'', Str ''center''), (''alignItems'', Str ''center'')]"

definition node_types :: "(string \<times> (string \<times> style) list) list" where
  "node_types =
     [(''Input'', [(''style'', centered ''#f472b6'' 50)]),
      (''Embedding'', [(''style'', centered ''#4ea8de'' 50)]),
      (''Attention'', [(''style'', centered ''#ff9a3c'' 50)]),
      (''MLP'', [(''style'', centered ''#6ede87'' 50)]),
      (''Output'', [(''style'', centered ''#ffcc50'' 80)])]"

text \<open>\<open>d.get(k, default)\<close> on a dictionary given by its items.\<close>

definition dict_get :: "('k \<times> 'v) list \<Rightarrow> 'k \<Rightarrow> 'v \<Rightarrow> 'v" where
  "dict_get d k dflt = (case map_of d k of None \<Rightarrow> dflt | Some v \<Rightarrow> v)"

definition node_type :: "string \<Rightarrow> string" where
  "node_type node =
     (if startswith node ''m'' then ''MLP''
      else if startswith node ''a'' then ''Attention''
      else if node = ''resid_post'' then ''Output''
      else ''default'')"

definition edge_element :: "string \<times> string \<Rightarrow> element" where
  "edge_element e =
     EdgeElement (fst e @ ''-'' @ snd e) (fst e) (snd e) ''smoothstep'' True
       [(''stroke'', Str ''#888''), (''strokeWidth'', Num 2), (''strokeDasharray'', Str ''5, 5'')]"

subsection \<open>List indexing, slicing, \<open>min\<close>, \<open>max\<close>, division\<close>

text \<open>
  \<open>xs[i]\<close> counts a negative index from the end and raises \<open>IndexError\<close> out of
  range; \<open>py_index\<close> gives the position that is read or written.  \<open>xs[:k]\<close> never
  raises.  \<open>min\<close> and \<open>max\<close> of an empty sequence raise \<open>ValueError\<close>; a division by
  zero raises \<open>ZeroDivisionError\<close>.
\<close>

definition py_index :: "'a list \<Rightarrow> int \<Rightarrow> error + nat" where
  "py_index xs i =
     (if 0 \<le> i \<and> i < int (length xs) then Inr (nat i)
      else if i < 0 \<and> - int (length xs) \<le> i then Inr (nat (int (length xs) + i))
      else Inl IndexError)"

definition py_take :: "'a list \<Rightarrow> int \<Rightarrow> 'a list" where
  "py_take xs k = (if k < 0 then take (nat (int (length xs) + k)) xs else take (nat k) xs)"

definition py_min :: "int list \<Rightarrow> error + int" where
  "py_min xs = (case xs of [] \<Rightarrow> Inl ValueError | x # r \<Rightarrow> Inr (fold min r x))"

definition py_max :: "int list \<Rightarrow> error + int" where
  "py_max xs = (case xs of [] \<Rightarrow> Inl ValueError | x # r \<Rightarrow> Inr (fold max r x))"

definition py_truediv :: "real \<Rightarrow> real \<Rightarrow> error + real" where
  "py_truediv a b = (if b = 0 then Inl ZeroDivisionError else Inr (a / b))"

subsection \<open>The node set and its sorted order\<close>

text \<open>
  \<open>create_elements\<close> collects the identifiers of the edges in a Python \<open>set\<close>.  The
  order in which a set of strings is iterated is not fixed by the program; it is the
  parameter \<open>order\<close> of the functions below, a list that holds every node once.
\<close>

definition nodes_of :: "(string \<times> string) list \<Rightarrow> string set" where
  "nodes_of edges = fst ` set edges \<union> snd ` set edges"

definition iterates :: "string list \<Rightarrow> (string \<times> string) list \<Rightarrow> bool" where
  "iterates order edges = (distinct order \<and> set order = nodes_of edges)"

definition sort_key :: "string \<Rightarrow> error + (int \<times> int)" where
  "sort_key x =
     bind_err (get_layer x) (\<lambda>l.
     bind_err (if startswith x ''a'' then get_attention_head x else Inr (- 1)) (\<lambda>h.
     Inr (l, h)))"

text \<open>\<open>sorted(..., reverse=True)\<close>: descending keys, equal keys in their given order.\<close>

fun insort_desc :: "(int \<times> int) \<times> string \<Rightarrow> ((int \<times> int) \<times> string) list
    \<Rightarrow> ((int \<times> int) \<times> string) list" where
  "insort_desc p [] = [p]"
| "insort_desc p (q # qs) = (if fst q \<le> fst p then p # q # qs else q # insort_desc p qs)"

definition sort_desc :: "((int \<times> int) \<times> string) list \<Rightarrow> ((int \<times> int) \<times> string) list" where
  "sort_desc ps = foldr insort_desc ps []"

definition sorted_nodes :: "string list \<Rightarrow> error + string list" where
  "sorted_nodes order =
     bind_err (map_err sort_key order) (\<lambda>ks. Inr (map snd (sort_desc (zip ks order))))"

subsection \<open>Layer range\<close>

text \<open>
  The generator of lines 92 and 93 keeps the layers that differ from
  \<open>float('-inf')\<close>.  A layer is an \<open>int\<close>; \<open>pynum\<close> holds the two kinds of number that
  are compared.
\<close>

datatype pynum = PyInt int | NegInf

definition finite_layers :: "string list \<Rightarrow> error + int list" where
  "finite_layers order =
     bind_err (map_err get_layer order) (\<lambda>ls. Inr (filter (\<lambda>l. PyInt l \<noteq> NegInf) ls))"

definition min_layer :: "string list \<Rightarrow> error + int" where
  "min_layer order = bind_err (finite_layers order) py_min"

definition max_layer :: "string list \<Rightarrow> error + int" where
  "max_layer order = bind_err (finite_layers order) py_max"

subsection \<open>Counting and placing\<close>

fun count_layers :: "int \<Rightarrow> string list \<Rightarrow> int list \<Rightarrow> int list
    \<Rightarrow> error + (int list \<times> int list)" where
  "count_layers mn [] lc lh = Inr (lc, lh)"
| "count_layers mn (node # rest) lc lh =
     (case get_layer node of
        Inl e \<Rightarrow> Inl e
      | Inr layer \<Rightarrow>
          if layer \<noteq> 100 then
            (case py_index lc (layer - mn) of
               Inl e \<Rightarrow> Inl e
             | Inr i \<Rightarrow>
                 (case py_index lh (layer - mn) of
                    Inl e \<Rightarrow> Inl e
                  | Inr j \<Rightarrow>
                      count_layers mn rest (lc[i := lc ! i + 1]) (lh[j := max (lh ! j) 1])))
          else count_layers mn rest lc lh)"

text \<open>
  Lines 113 to 122.  \<open>node_x\<close> is the x coordinate of a node together with the
  attention counters after the node; \<open>node_y\<close> is its y coordinate before the
  adjustment of line 144.
\<close>

definition node_x :: "real \<Rightarrow> int \<Rightarrow> int list \<Rightarrow> int list \<Rightarrow> string \<Rightarrow> int
    \<Rightarrow> error + (real \<times> int list)" where
  "node_x W mn lc ac node layer =
     (if layer = 100 then Inr (W * 0.7, ac)
      else if startswith node ''m'' then Inr (W * 0.05, ac)
      else
        bind_err (py_index ac (layer - mn)) (\<lambda>i.
        let ac' = ac[i := ac ! i + 1] in
        bind_err (py_index lc (layer - mn)) (\<lambda>j.
        bind_err (py_truediv (real_of_int (ac' ! i) * (W * 0.8)) (real_of_int (lc ! j + 1)))
          (\<lambda>q. Inr (W * 0.85 - q, ac')))))"

definition node_y :: "int \<Rightarrow> int list \<Rightarrow> int \<Rightarrow> real \<Rightarrow> int \<Rightarrow> real" where
  "node_y mn lh tot lheight layer =
     (if layer = 100 then 20
      else (real_of_int tot - real_of_int (sum_list (py_take lh (layer - mn))) - 0.5) * lheight)"

fun place_nodes :: "real \<Rightarrow> int \<Rightarrow> int list \<Rightarrow> int list \<Rightarrow> int \<Rightarrow> real
    \<Rightarrow> int list \<Rightarrow> string list \<Rightarrow> error + element list" where
  "place_nodes W mn lc lh tot lheight ac [] = Inr []"
| "place_nodes W mn lc lh tot lheight ac (node # rest) =
     (case get_layer node of
        Inl e \<Rightarrow> Inl e
      | Inr layer \<Rightarrow>
          (case node_x W mn lc ac node layer of
             Inl e \<Rightarrow> Inl e
           | Inr (x, ac') \<Rightarrow>
               (case place_nodes W mn lc lh tot lheight ac' rest of
                  Inl e \<Rightarrow> Inl e
                | Inr els \<Rightarrow>
                    Inr (NodeElement node node (node_type node) x
                           (if CHR ''H'' \<in> set node
                            then node_y mn lh tot lheight layer - lheight / 4
                            else node_y mn lh tot lheight layer)
                           (dict_get (dict_get node_types (node_type node) []) ''style'' [])
                         # els))))"

text \<open>
  Lines 90 to 102: the nodes in sorted order, the least and the greatest layer, and the
  two tables \<open>layer_counts\<close> and \<open>layer_heights\<close>.
\<close>

definition layer_table :: "string list
    \<Rightarrow> error + (string list \<times> int \<times> int \<times> int list \<times> int list)" where
  "layer_table order =
     bind_err (sorted_nodes order) (\<lambda>sn.
     bind_err (min_layer order) (\<lambda>mn.
     bind_err (max_layer order) (\<lambda>mx.
     let zeros = replicate (nat (mx - mn + 1)) (0::int) in
     bind_err (count_layers mn sn zeros zeros) (\<lambda>(lc, lh).
     Inr (sn, mn, mx, lc, lh)))))"

definition create_elements :: "string list \<Rightarrow> (string \<times> string) list \<Rightarrow> real \<Rightarrow> real
    \<Rightarrow> error + element list" where
  "create_elements order edges graph_width graph_height =
     bind_err (layer_table order) (\<lambda>(sn, mn, mx, lc, lh).
     let tot = sum_list lh in
     bind_err (py_truediv graph_height (real_of_int tot)) (\<lambda>lheight.
     bind_err (place_nodes graph_width mn lc lh tot lheight
                 (replicate (nat (mx - mn + 1)) 0) sn) (\<lambda>node_els.
     Inr (node_els @ map edge_element edges))))"

subsection \<open>Counting nodes of a layer\<close>

text \<open>
  The number of nodes of a list that have layer \<open>l\<close>, and the number of those that
  are attention nodes.
\<close>

definition layer_count :: "int \<Rightarrow> string list \<Rightarrow> nat" where
  "layer_count l ns = length (filter (\<lambda>n. get_layer n = Inr l) ns)"

definition attention_count :: "int \<Rightarrow> string list \<Rightarrow> nat" where
  "attention_count l ns = length (filter (\<lambda>n. startswith n ''a'' \<and> get_layer n = Inr l) ns)"

section \<open>Example inputs\<close>

definition bare_cr_text :: string where
  \<open>bare_cr_text = ''"<a>" -> "<b>"'' @ [CR] @ ''"<c>" -> "<d>"''\<close>

definition crlf_text :: string where
  \<open>crlf_text = ''"<a>" -> "<b>"'' @ [CR, LF] @ ''"<c>" -> "<d>"'' @ [CR, LF]\<close>


definition sink_text :: string where
  \<open>sink_text = ''"<resid_post>" -> "<resid_post>"''\<close>

definition example_edges :: "(string \<times> string) list" where
  "example_edges = [(''a0.1'', ''m0-0''), (''m0-0'', ''resid_post'')]"

definition edge_style :: style where
  "edge_style =
     [(''stroke'', Str ''#888''), (''strokeWidth'', Num 2), (''strokeDasharray'', Str ''5, 5'')]"

definition example_elements :: "real \<Rightarrow> real \<Rightarrow> element list" where
  "example_elements W H =
     [NodeElement ''resid_post'' ''resid_post'' ''Output'' (W * 0.7) 20
        (centered ''#ffcc50'' 80),
      NodeElement ''a0.1'' ''a0.1'' ''Attention'' (W * 0.85 - W * 0.8 / 3) (H / 2)
        (centered ''#ff9a3c'' 50),
      NodeElement ''m0-0'' ''m0-0'' ''MLP'' (W * 0.05) (H / 2) (centered ''#6ede87'' 50),
      EdgeElement ''a0.1-m0-0'' ''a0.1'' ''m0-0'' ''smoothstep'' True edge_style,
      EdgeElement ''m0-0-resid_post'' ''m0-0'' ''resid_post'' ''smoothstep'' True edge_style]"

definition heads_order :: "string list" where
  "heads_order = [''a0.0'', ''m0-0'', ''a0.1'']"

definition heads_edges :: "(string \<times> string) list" where
  "heads_edges = [(''a0.0'', ''m0-0''), (''a0.1'', ''m0-0'')]"

definition heads_elements :: "element list" where
  "heads_elements =
     [NodeElement ''a0.1'' ''a0.1'' ''Attention'' 910 400 (centered ''#ff9a3c'' 50),
      NodeElement ''a0.0'' ''a0.0'' ''Attention'' 630 400 (centered ''#ff9a3c'' 50),
      NodeElement ''m0-0'' ''m0-0'' ''MLP'' 70 400 (centered ''#6ede87'' 50),
      EdgeElement ''a0.0-m0-0'' ''a0.0'' ''m0-0'' ''smoothstep'' True edge_style,
      EdgeElement ''a0.1-m0-0'' ''a0.1'' ''m0-0'' ''smoothstep'' True edge_style]"

definition marker_order :: "string list" where
  "marker_order = [''m99-0'', ''H'']"

definition marker_edges :: "(string \<times> string) list" where
  "marker_edges = [(''m99-0'', ''H'')]"

definition marker_elements :: "element list" where
  "marker_elements =
     [NodeElement ''H'' ''H'' ''default'' 980 (- 180) [],
      NodeElement ''m99-0'' ''m99-0'' ''MLP'' 70 400 (centered ''#6ede87'' 50),
      EdgeElement ''m99-0-H'' ''m99-0'' ''H'' ''smoothstep'' True edge_style]"

definition deep_order :: "string list" where
  "deep_order = [''a100.0'', ''a100.1'', ''m99-0'']"

definition deep_edges :: "(string \<times> string) list" where
  "deep_edges = [(''a100.0'', ''m99-0''), (''a100.1'', ''m99-0'')]"

definition deep_elements :: "element list" where
  "deep_elements =
     [NodeElement ''a100.1'' ''a100.1'' ''Attention'' 980 20 (centered ''#ff9a3c'' 50),
      NodeElement ''a100.0'' ''a100.0'' ''Attention'' 980 20 (centered ''#ff9a3c'' 50),
      NodeElement ''m99-0'' ''m99-0'' ''MLP'' 70 400 (centered ''#6ede87'' 50),
      EdgeElement ''a100.0-m99-0'' ''a100.0'' ''m99-0'' ''smoothstep'' True edge_style,
      EdgeElement ''a100.1-m99-0'' ''a100.1'' ''m99-0'' ''smoothstep'' True edge_style]"

section \<open>Properties\<close>

subsection \<open>Layer and head\<close>

lemmas layer_eval = get_layer_def get_attention_head_def startswith_def py_int_def strip_def
  is_space_def parse_nat_def is_digit_def digit_val_def

text \<open>
  Claim C9.  The documented examples: \<open>get_layer\<close> gives 3 on \<open>m3-5\<close>, 2 on \<open>a2.7\<close>
  and 100 on \<open>resid_post\<close>; \<open>get_attention_head\<close> gives 7 on \<open>a2.7\<close> and -1 on
  \<open>m3-5\<close> and on \<open>resid_post\<close>.
\<close>

theorem layer_and_head_examples:
  "get_layer ''m3-5'' = Inr 3 \<and> get_layer ''a2.7'' = Inr 2
   \<and> get_layer ''resid_post'' = Inr 100
   \<and> get_attention_head ''a2.7'' = Inr 7 \<and> get_attention_head ''m3-5'' = Inr (- 1)
   \<and> get_attention_head ''resid_post'' = Inr (- 1)"
  by (simp add: layer_eval)




subsection \<open>Graph parser\<close>

lemma startswith_iff: "startswith s p \<longleftrightarrow> (\<exists>t. s = p @ t)"
proof
  assume "startswith s p"
  then have "s = p @ drop (length p) s"
    unfolding startswith_def by (metis append_take_drop_id)
  then show "\<exists>t. s = p @ t" ..
next
  assume "\<exists>t. s = p @ t"
  then show "startswith s p" by (auto simp: startswith_def)
qed


lemma startswith_snoc:
  assumes "c \<notin> set p"
  shows "startswith (s @ [c]) p \<longleftrightarrow> startswith s p"
proof
  assume "startswith (s @ [c]) p"
  then obtain t where t: "s @ [c] = p @ t" by (auto simp: startswith_iff)
  show "startswith s p"
  proof (cases t rule: rev_cases)
    case Nil
    with t have "c \<in> set p" by (metis append_Nil2 in_set_conv_decomp)
    with assms show ?thesis by simp
  next
    case (snoc t' x)
    with t have "s = p @ t'" by simp
    then show ?thesis by (auto simp: startswith_iff)
  qed
next
  assume "startswith s p"
  then show "startswith (s @ [c]) p" by (auto simp: startswith_iff)
qed










lemma edges_loop_map_filter: "edges_loop acc ls = acc @ List.map_filter search ls"
  by (induction ls arbitrary: acc) (auto simp: List.map_filter_simps split: option.splits)


lemma startswith_Nil: "startswith [] p \<longleftrightarrow> p = []"
  by (auto simp: startswith_def)

lemma group2_snoc:
  assumes "c \<notin> set lit_close"
  shows "group2 acc (s @ [c]) = group2 acc s"
proof (induction s arbitrary: acc)
  case Nil
  show ?case by (simp add: startswith_Nil lit_close_def)
next
  case (Cons x s)
  then show ?case by (simp add: startswith_snoc[OF assms])
qed

lemma drop_snoc_startswith:
  "startswith s p \<Longrightarrow> drop (length p) (s @ [c]) = drop (length p) s @ [c]"
  by (auto simp: startswith_iff)

lemma group1_snoc:
  assumes "c \<notin> set lit_close" "c \<notin> set lit_arrow"
  shows "group1 acc (s @ [c]) = group1 acc s"
proof (induction s arbitrary: acc)
  case Nil
  show ?case by (simp add: startswith_Nil lit_arrow_def)
next
  case (Cons x s)
  show ?case
  proof (cases "startswith s lit_arrow")
    case True
    then have "startswith (s @ [c]) lit_arrow" by (simp add: startswith_snoc[OF assms(2)])
    moreover have "group2 [] (drop (length lit_arrow) (s @ [c]))
        = group2 [] (drop (length lit_arrow) s)"
      by (simp only: drop_snoc_startswith[OF True] group2_snoc[OF assms(1)])
    ultimately show ?thesis using True Cons.IH by (simp split: option.splits)
  next
    case False
    then have "\<not> startswith (s @ [c]) lit_arrow" by (simp add: startswith_snoc[OF assms(2)])
    then show ?thesis using False Cons.IH by simp
  qed
qed

lemma search_snoc:
  assumes "c \<notin> set lit_close" "c \<notin> set lit_arrow" "c \<notin> set lit_open"
  shows "search (s @ [c]) = search s"
proof (induction s)
  case Nil
  show ?case by (simp add: startswith_def lit_open_def)
next
  case (Cons x s)
  have sw: "startswith ((x # s) @ [c]) lit_open \<longleftrightarrow> startswith (x # s) lit_open"
    by (rule startswith_snoc[OF assms(3)])
  show ?case
  proof (cases "startswith (x # s) lit_open")
    case True
    have "group1 [] (drop (length lit_open) ((x # s) @ [c]))
        = group1 [] (drop (length lit_open) (x # s))"
      by (simp only: drop_snoc_startswith[OF True] group1_snoc[OF assms(1,2)])
    then have "group1 [] (drop (length lit_open) (x # s @ [c]))
        = group1 [] (drop (length lit_open) (x # s))" by simp
    moreover have "startswith (x # s @ [c]) lit_open" using sw True by simp
    ultimately show ?thesis using True Cons.IH by (simp del: drop_Cons' split: option.splits)
  next
    case False
    then have "\<not> startswith (x # s @ [c]) lit_open" using sw by simp
    then show ?thesis using False Cons.IH by simp
  qed
qed

lemma search_LF: "search (s @ [LF]) = search s"
  by (rule search_snoc) (simp_all add: LF_def lit_close_def lit_arrow_def lit_open_def)

lemma search_CR: "search (s @ [CR]) = search s"
  by (rule search_snoc) (simp_all add: CR_def lit_close_def lit_arrow_def lit_open_def)

lemma str_split_no_sep: "sep \<notin> set p \<Longrightarrow> str_split p sep = [p]"
  by (induction p) auto

lemma str_split_append:
  "sep \<notin> set p \<Longrightarrow> str_split (p @ sep # t) sep = p # str_split t sep"
  by (induction p) auto

lemma readlines_no_LF: "LF \<notin> set p \<Longrightarrow> readlines p = (if p = [] then [] else [p])"
  by (induction p) auto

lemma readlines_append:
  "LF \<notin> set p \<Longrightarrow> readlines (p @ LF # t) = (p @ [LF]) # readlines t"
  by (induction p) auto


lemma map_filter_search_line: "List.map_filter search (l # ls) =
    (case search l of None \<Rightarrow> List.map_filter search ls | Some m \<Rightarrow> m # List.map_filter search ls)"
  by (simp add: List.map_filter_simps)

lemma lines_agree_end:
  assumes "LF \<notin> set p"
  shows "List.map_filter search (readlines p) = List.map_filter search (str_split p LF)"
  using assms by (simp add: readlines_no_LF str_split_no_sep List.map_filter_simps)

lemma lines_agree:
  "crlf_only t \<Longrightarrow> LF \<notin> set p \<Longrightarrow>
     List.map_filter search (readlines (p @ universal_newlines t))
       = List.map_filter search (str_split (p @ t) LF)"
proof (induction t arbitrary: p rule: crlf_only.induct)
  case 1
  then show ?case using lines_agree_end[of p] by simp
next
  case (2 c)
  then have c: "c \<noteq> CR" by simp
  show ?case
  proof (cases "c = LF")
    case True
    have "readlines (p @ [LF]) = [p @ [LF]]"
      using readlines_append[OF "2.prems"(2), of "[]"] by simp
    moreover have "str_split (p @ [LF]) LF = [p, []]"
      using str_split_append[OF "2.prems"(2), of "[]"] by simp
    ultimately show ?thesis using c True
      by (simp add: List.map_filter_simps search_LF split: option.splits)
  next
    case False
    then have "LF \<notin> set (p @ [c])" using "2.prems"(2) by auto
    from lines_agree_end[OF this] show ?thesis using c by simp
  qed
next
  case (3 c d cs)
  show ?case
  proof (cases "c = CR")
    case True
    with "3.prems" have d: "d = LF" and rest: "crlf_only cs" by simp_all
    have "LF \<notin> set ([]::string)" by simp
    from "3.IH"(1)[OF True rest this]
    have ih: "List.map_filter search (readlines (universal_newlines cs))
        = List.map_filter search (str_split cs LF)" by simp
    have l: "readlines (p @ universal_newlines (c # d # cs))
        = (p @ [LF]) # readlines (universal_newlines cs)"
      using True d readlines_append[OF "3.prems"(2)] by simp
    have "LF \<notin> set (p @ [CR])" using "3.prems"(2) by (simp add: LF_def CR_def)
    from str_split_append[OF this, of cs]
    have r: "str_split (p @ c # d # cs) LF = (p @ [CR]) # str_split cs LF"
      using True d by simp
    show ?thesis unfolding l r map_filter_search_line search_LF search_CR ih ..
  next
    case False
    with "3.prems" have rest: "crlf_only (d # cs)" by simp
    show ?thesis
    proof (cases "c = LF")
      case True
      have "LF \<notin> set ([]::string)" by simp
      from "3.IH"(2)[OF False rest this]
      have ih: "List.map_filter search (readlines (universal_newlines (d # cs)))
          = List.map_filter search (str_split (d # cs) LF)" by simp
      have l: "readlines (p @ universal_newlines (c # d # cs))
          = (p @ [LF]) # readlines (universal_newlines (d # cs))"
        using True False readlines_append[OF "3.prems"(2)] by simp
      have r: "str_split (p @ c # d # cs) LF = p # str_split (d # cs) LF"
        using True str_split_append[OF "3.prems"(2)] by simp
      show ?thesis unfolding l r map_filter_search_line search_LF ih ..
    next
      case notLF: False
      then have "LF \<notin> set (p @ [c])" using "3.prems"(2) by auto
      from "3.IH"(2)[OF False rest this] show ?thesis using False by simp
    qed
  qed
qed

lemma gv_to_edges_map_filter: "gv_to_edges gv = List.map_filter search (input_lines gv)"
  by (simp add: gv_to_edges_def input_lines_def edges_loop_map_filter)

lemmas parse_eval = gv_to_edges_def input_lines_def LF_def CR_def
  lit_open_def lit_arrow_def lit_close_def startswith_def




text \<open>
  Claim C10, amended.  When every carriage return of the text is followed at once by a
  line feed, \<open>gv_to_edges\<close> gives the same edges for a path whose file holds the text
  and for an uploaded buffer that decodes to it.
\<close>

theorem path_and_upload_agree:
  "crlf_only text \<Longrightarrow> gv_to_edges (Path text) = gv_to_edges (UploadedFile text)"
  using lines_agree[of _ "[]"] by (simp add: gv_to_edges_map_filter input_lines_def)

text \<open>
  Claim C10, as stated, fails on a text with a carriage return between two edges: read
  from a path the text has two lines and two edges, split at \<open>\n\<close> it is one line,
  where \<open>search\<close> finds the first edge only.
\<close>

theorem path_and_upload_differ:
  "gv_to_edges (Path bare_cr_text) = [(''a'', ''b''), (''c'', ''d'')]
   \<and> gv_to_edges (UploadedFile bare_cr_text) = [(''a'', ''b'')]"
  by (simp add: bare_cr_text_def parse_eval)

theorem path_and_upload_agree_witness:
  "crlf_only crlf_text
   \<and> gv_to_edges (Path crlf_text) = [(''a'', ''b''), (''c'', ''d'')]
   \<and> gv_to_edges (UploadedFile crlf_text) = [(''a'', ''b''), (''c'', ''d'')]"
proof -
  have h: "crlf_only crlf_text" by (simp add: crlf_text_def LF_def CR_def)
  have "gv_to_edges (UploadedFile crlf_text) = [(''a'', ''b''), (''c'', ''d'')]"
    by (simp add: crlf_text_def parse_eval)
  with h path_and_upload_agree[OF h] show ?thesis by simp
qed

subsection \<open>Layout engine\<close>

lemma bind_err_Inr: "bind_err m f = Inr y \<longleftrightarrow> (\<exists>v. m = Inr v \<and> f v = Inr y)"
  by (cases m) (simp_all add: bind_err_def)

lemma map_err_length: "map_err f xs = Inr ys \<Longrightarrow> length ys = length xs"
  by (induction xs arbitrary: ys) (auto split: sum.splits)

lemma map_err_nth: "map_err f xs = Inr ys \<Longrightarrow> i < length xs \<Longrightarrow> f (xs ! i) = Inr (ys ! i)"
proof (induction xs arbitrary: ys i)
  case Nil
  then show ?case by simp
next
  case (Cons x xs)
  then show ?case by (cases i) (auto split: sum.splits)
qed

lemma map_err_map: "map_err f xs = Inr ys \<Longrightarrow> map f xs = map Inr ys"
  by (induction xs arbitrary: ys) (auto split: sum.splits)

lemma map_err_mem: "map_err f xs = Inr ys \<Longrightarrow> x \<in> set xs \<Longrightarrow> \<exists>y \<in> set ys. f x = Inr y"
  by (induction xs arbitrary: ys) (auto split: sum.splits)

lemma mset_insort_desc: "mset (insort_desc p qs) = add_mset p (mset qs)"
  by (induction qs) auto

lemma mset_sort_desc: "mset (sort_desc ps) = mset ps"
  unfolding sort_desc_def by (induction ps) (auto simp: mset_insort_desc)

lemma sorted_nodes_mset:
  assumes "sorted_nodes order = Inr sn"
  shows "mset sn = mset order"
proof -
  from assms obtain ks where ks: "map_err sort_key order = Inr ks"
    and sn: "sn = map snd (sort_desc (zip ks order))"
    by (auto simp: sorted_nodes_def bind_err_Inr)
  have "mset sn = image_mset snd (mset (zip ks order))"
    unfolding sn by (simp only: mset_map mset_sort_desc)
  also have "\<dots> = mset (map snd (zip ks order))" by simp
  also have "map snd (zip ks order) = order"
    using map_err_length[OF ks] by simp
  finally show ?thesis .
qed

lemma sorted_nodes_set: "sorted_nodes order = Inr sn \<Longrightarrow> set sn = set order"
  using sorted_nodes_mset[of order sn] by (metis set_mset_mset)

lemma sorted_nodes_length: "sorted_nodes order = Inr sn \<Longrightarrow> length sn = length order"
  using sorted_nodes_mset[of order sn] by (metis size_mset)

lemma fold_min_le: "fold min xs (x::int) \<le> x"
proof (induction xs arbitrary: x)
  case Nil
  show ?case by simp
next
  case (Cons a xs)
  have "fold min xs (min a x) \<le> min a x" by (rule Cons.IH)
  then show ?case by simp
qed

lemma fold_min_le_mem: "y \<in> set xs \<Longrightarrow> fold min xs (x::int) \<le> y"
proof (induction xs arbitrary: x)
  case Nil
  then show ?case by simp
next
  case (Cons a xs)
  then show ?case using fold_min_le[of xs "min a x"] by auto
qed

lemma py_min_le: "py_min xs = Inr m \<Longrightarrow> y \<in> set xs \<Longrightarrow> m \<le> y"
  using fold_min_le fold_min_le_mem by (auto simp: py_min_def split: list.splits)

lemma finite_layers_all: "finite_layers order = map_err get_layer order"
  by (cases "map_err get_layer order") (simp_all add: finite_layers_def bind_err_def)

lemma min_layer_le:
  assumes "min_layer order = Inr mn" "n \<in> set order" "get_layer n = Inr l"
  shows "mn \<le> l"
proof -
  from assms(1) obtain ls where ls: "map_err get_layer order = Inr ls" and m: "py_min ls = Inr mn"
    by (auto simp: min_layer_def finite_layers_all bind_err_Inr)
  from map_err_mem[OF ls assms(2)] assms(3) have "l \<in> set ls" by auto
  with m show ?thesis by (rule py_min_le)
qed

lemma py_index_nonneg:
  "py_index xs i = Inr k \<Longrightarrow> 0 \<le> i \<Longrightarrow> k = nat i \<and> nat i < length xs"
  by (auto simp: py_index_def split: if_splits)


lemma count_layers_Cons:
  assumes "count_layers mn (n # ns) lc lh = Inr r"
  shows "\<exists>l. get_layer n = Inr l \<and>
     (if l \<noteq> 100
      then \<exists>i j. py_index lc (l - mn) = Inr i \<and> py_index lh (l - mn) = Inr j
             \<and> count_layers mn ns (lc[i := lc ! i + 1]) (lh[j := max (lh ! j) 1]) = Inr r
      else count_layers mn ns lc lh = Inr r)"
  using assms by (auto split: sum.splits if_splits)

lemma layer_count_Cons:
  "layer_count l (n # ns) = (if get_layer n = Inr l then 1 else 0) + layer_count l ns"
  by (simp add: layer_count_def)

lemma count_layers_spec:
  assumes "count_layers mn ns lc lh = Inr (lc', lh')"
    and "\<forall>n\<in>set ns. \<forall>l. get_layer n = Inr l \<longrightarrow> mn \<le> l"
  shows "length lc' = length lc \<and> length lh' = length lh
    \<and> (\<forall>n\<in>set ns. \<forall>l. get_layer n = Inr l \<longrightarrow> l \<noteq> 100 \<longrightarrow> nat (l - mn) < length lc)
    \<and> (\<forall>l. l \<noteq> 100 \<longrightarrow> mn \<le> l \<longrightarrow> nat (l - mn) < length lc \<longrightarrow>
          lc' ! nat (l - mn) = lc ! nat (l - mn) + int (layer_count l ns))"
  using assms
proof (induction ns arbitrary: lc lh)
  case Nil
  then show ?case by (simp add: layer_count_def)
next
  case (Cons n ns)
  from count_layers_Cons[OF Cons.prems(1)] obtain l0 where l0: "get_layer n = Inr l0"
    and step: "if l0 \<noteq> 100
      then \<exists>i j. py_index lc (l0 - mn) = Inr i \<and> py_index lh (l0 - mn) = Inr j
             \<and> count_layers mn ns (lc[i := lc ! i + 1]) (lh[j := max (lh ! j) 1]) = Inr (lc', lh')
      else count_layers mn ns lc lh = Inr (lc', lh')"
    by blast
  from Cons.prems(2) have rest: "\<forall>n\<in>set ns. \<forall>l. get_layer n = Inr l \<longrightarrow> mn \<le> l" by simp
  from Cons.prems(2) l0 have mn0: "mn \<le> l0" by simp
  show ?case
  proof (cases "l0 = 100")
    case True
    with step have "count_layers mn ns lc lh = Inr (lc', lh')" by simp
    from Cons.IH[OF this rest] show ?thesis using l0 True
      by (auto simp: layer_count_Cons)
  next
    case False
    with step obtain i j where i: "py_index lc (l0 - mn) = Inr i"
      and j: "py_index lh (l0 - mn) = Inr j"
      and c: "count_layers mn ns (lc[i := lc ! i + 1]) (lh[j := max (lh ! j) 1]) = Inr (lc', lh')"
      by auto
    from py_index_nonneg[OF i] mn0 have i': "i = nat (l0 - mn)" "nat (l0 - mn) < length lc"
      by simp_all
    note ih = Cons.IH[OF c rest]
    have len: "length lc' = length lc \<and> length lh' = length lh" using ih by simp
    have rng: "\<forall>m\<in>set (n # ns). \<forall>l. get_layer m = Inr l \<longrightarrow> l \<noteq> 100
        \<longrightarrow> nat (l - mn) < length lc"
      using ih l0 i' by auto
    have cnt: "lc' ! nat (l - mn) = lc ! nat (l - mn) + int (layer_count l (n # ns))"
      if l: "l \<noteq> 100" "mn \<le> l" "nat (l - mn) < length lc" for l
    proof -
      from ih l have e: "lc' ! nat (l - mn)
          = (lc[i := lc ! i + 1]) ! nat (l - mn) + int (layer_count l ns)" by simp
      show ?thesis
      proof (cases "l = l0")
        case True
        then show ?thesis using e i' l0 by (simp add: layer_count_Cons)
      next
        case neq: False
        then have "nat (l - mn) \<noteq> nat (l0 - mn)" using l(2) mn0 by auto
        then show ?thesis using e i' l0 neq by (simp add: layer_count_Cons)
      qed
    qed
    from len rng cnt show ?thesis by blast
  qed
qed

lemma startswith_a_not_m: "startswith n ''a'' \<Longrightarrow> \<not> startswith n ''m''"
  by (auto simp: startswith_def)

lemma get_layer_other: "\<not> startswith n ''m'' \<Longrightarrow> \<not> startswith n ''a'' \<Longrightarrow> get_layer n = Inr 100"
  by (simp add: get_layer_def)

lemma node_x_cases:
  assumes "node_x W mn lc ac node layer = Inr (x, ac')"
  shows "layer = 100 \<Longrightarrow> x = W * 0.7 \<and> ac' = ac"
    and "layer \<noteq> 100 \<Longrightarrow> startswith node ''m'' \<Longrightarrow> x = W * 0.05 \<and> ac' = ac"
    and "layer \<noteq> 100 \<Longrightarrow> \<not> startswith node ''m'' \<Longrightarrow>
          \<exists>i j. py_index ac (layer - mn) = Inr i \<and> py_index lc (layer - mn) = Inr j
            \<and> ac' = ac[i := ac ! i + 1] \<and> lc ! j + 1 \<noteq> 0
            \<and> x = W * 0.85 - real_of_int (ac' ! i) * (W * 0.8) / real_of_int (lc ! j + 1)"
  using assms
  by (auto simp: node_x_def bind_err_Inr Let_def py_truediv_def split: if_splits)

lemma place_nodes_Cons:
  assumes "place_nodes W mn lc lh tot u ac (n # ns) = Inr els"
  shows "\<exists>layer x ac' els'. get_layer n = Inr layer
      \<and> node_x W mn lc ac n layer = Inr (x, ac')
      \<and> place_nodes W mn lc lh tot u ac' ns = Inr els'
      \<and> els = NodeElement n n (node_type n) x
                 (if CHR ''H'' \<in> set n then node_y mn lh tot u layer - u / 4
                  else node_y mn lh tot u layer)
                 (dict_get (dict_get node_types (node_type n) []) ''style'' []) # els'"
  using assms by (auto split: sum.splits prod.splits)

lemma place_nodes_length:
  "place_nodes W mn lc lh tot u ac ns = Inr els \<Longrightarrow> length els = length ns"
proof (induction ns arbitrary: ac els)
  case Nil
  then show ?case by simp
next
  case (Cons n ns)
  from place_nodes_Cons[OF Cons.prems] obtain x ac' els' layer where
    "place_nodes W mn lc lh tot u ac' ns = Inr els'" "length els = Suc (length els')"
    by auto
  with Cons.IH show ?case by simp
qed

lemma place_nodes_nth:
  assumes "place_nodes W mn lc lh tot u ac ns = Inr els" "i < length ns"
    "get_layer (ns ! i) = Inr layer"
  shows "el_id (els ! i) = ns ! i \<and> label (els ! i) = ns ! i
    \<and> el_type (els ! i) = node_type (ns ! i)
    \<and> pos_y (els ! i) = (if CHR ''H'' \<in> set (ns ! i) then node_y mn lh tot u layer - u / 4
                          else node_y mn lh tot u layer)
    \<and> (layer = 100 \<longrightarrow> pos_x (els ! i) = W * 0.7)
    \<and> (layer \<noteq> 100 \<longrightarrow> startswith (ns ! i) ''m'' \<longrightarrow> pos_x (els ! i) = W * 0.05)"
  using assms
proof (induction ns arbitrary: ac els i)
  case Nil
  then show ?case by simp
next
  case (Cons n ns)
  from place_nodes_Cons[OF Cons.prems(1)] obtain l0 x ac' els' where
    l0: "get_layer n = Inr l0" and x: "node_x W mn lc ac n l0 = Inr (x, ac')"
    and rest: "place_nodes W mn lc lh tot u ac' ns = Inr els'"
    and els: "els = NodeElement n n (node_type n) x
                 (if CHR ''H'' \<in> set n then node_y mn lh tot u l0 - u / 4
                  else node_y mn lh tot u l0)
                 (dict_get (dict_get node_types (node_type n) []) ''style'' []) # els'"
    by blast
  show ?case
  proof (cases i)
    case 0
    with Cons.prems(3) l0 have "layer = l0" by simp
    then show ?thesis using 0 els node_x_cases(1,2)[OF x] by simp
  next
    case (Suc k)
    with Cons.prems have "k < length ns" "get_layer (ns ! k) = Inr layer" by simp_all
    from Cons.IH[OF rest this] show ?thesis using Suc els by simp
  qed
qed


lemma attention_count_Cons:
  "attention_count l (n # ns)
     = (if startswith n ''a'' \<and> get_layer n = Inr l then 1 else 0) + attention_count l ns"
  by (simp add: attention_count_def)

lemma place_nodes_attention:
  assumes "place_nodes W mn lc lh tot u ac ns = Inr els"
    and "\<forall>n\<in>set ns. \<forall>l. get_layer n = Inr l \<longrightarrow> mn \<le> l"
    and "i < length ns" "get_layer (ns ! i) = Inr l" "l \<noteq> 100" "startswith (ns ! i) ''a''"
  shows "nat (l - mn) < length ac \<and> nat (l - mn) < length lc
    \<and> lc ! nat (l - mn) + 1 \<noteq> 0
    \<and> pos_x (els ! i) = W * 0.85
        - real_of_int (ac ! nat (l - mn) + int (attention_count l (take (Suc i) ns))) * (W * 0.8)
          / real_of_int (lc ! nat (l - mn) + 1)"
  using assms
proof (induction ns arbitrary: ac els i)
  case Nil
  then show ?case by simp
next
  case (Cons n ns)
  from place_nodes_Cons[OF Cons.prems(1)] obtain l0 x ac' els' where
    l0: "get_layer n = Inr l0" and x: "node_x W mn lc ac n l0 = Inr (x, ac')"
    and rest: "place_nodes W mn lc lh tot u ac' ns = Inr els'"
    and els: "els = NodeElement n n (node_type n) x
                 (if CHR ''H'' \<in> set n then node_y mn lh tot u l0 - u / 4
                  else node_y mn lh tot u l0)
                 (dict_get (dict_get node_types (node_type n) []) ''style'' []) # els'"
    by blast
  from Cons.prems(2) l0 have mn0: "mn \<le> l0" by simp
  from Cons.prems(2) have restmn: "\<forall>n\<in>set ns. \<forall>l. get_layer n = Inr l \<longrightarrow> mn \<le> l" by simp
  have mnl: "mn \<le> l" using Cons.prems(2,3,4) by (metis nth_mem)
  show ?case
  proof (cases i)
    case 0
    with Cons.prems l0 have ll: "l0 = l" and a: "startswith n ''a''" by simp_all
    from node_x_cases(3)[OF x] ll Cons.prems(5) startswith_a_not_m[OF a]
    obtain k j where k: "py_index ac (l - mn) = Inr k" and j: "py_index lc (l - mn) = Inr j"
      and ac': "ac' = ac[k := ac ! k + 1]" and nz: "lc ! j + 1 \<noteq> 0"
      and xv: "x = W * 0.85 - real_of_int (ac' ! k) * (W * 0.8) / real_of_int (lc ! j + 1)"
      by auto
    from py_index_nonneg[OF k] mnl have k': "k = nat (l - mn)" "nat (l - mn) < length ac"
      by simp_all
    from py_index_nonneg[OF j] mnl have j': "j = nat (l - mn)" "nat (l - mn) < length lc"
      by simp_all
    have "ac' ! k = ac ! nat (l - mn) + 1" using ac' k' by simp
    moreover have "attention_count l (take (Suc i) (n # ns)) = 1"
      using 0 a l0 ll by (simp add: attention_count_def)
    ultimately show ?thesis using 0 els xv k' j' nz by simp
  next
    case (Suc m)
    with Cons.prems have m: "m < length ns" "get_layer (ns ! m) = Inr l"
      "startswith (ns ! m) ''a''" by simp_all
    note ih = Cons.IH[OF rest restmn m(1,2) Cons.prems(5) m(3)]
    have lenac: "length ac' = length ac"
    proof (cases "l0 \<noteq> 100 \<and> \<not> startswith n ''m''")
      case True
      with node_x_cases(3)[OF x] show ?thesis by auto
    next
      case False
      with node_x_cases(1,2)[OF x] show ?thesis by auto
    qed
    have upd: "ac' ! nat (l - mn)
        = ac ! nat (l - mn) + (if startswith n ''a'' \<and> get_layer n = Inr l then 1 else 0)"
    proof (cases "l0 \<noteq> 100 \<and> \<not> startswith n ''m''")
      case True
      then have a: "startswith n ''a''" using get_layer_other[of n] l0 by auto
      from node_x_cases(3)[OF x] True obtain k where k: "py_index ac (l0 - mn) = Inr k"
        and ac': "ac' = ac[k := ac ! k + 1]" by auto
      from py_index_nonneg[OF k] mn0 have k': "k = nat (l0 - mn)" "nat (l0 - mn) < length ac"
        by simp_all
      show ?thesis
      proof (cases "l0 = l")
        case True
        then show ?thesis using ac' k' a l0 by simp
      next
        case False
        then have "nat (l - mn) \<noteq> nat (l0 - mn)" using mnl mn0 by auto
        then show ?thesis using ac' k' l0 False by simp
      qed
    next
      case False
      with node_x_cases(1,2)[OF x] have "ac' = ac" by auto
      moreover have "\<not> (startswith n ''a'' \<and> get_layer n = Inr l)"
        using False l0 Cons.prems(5) startswith_a_not_m[of n] by auto
      ultimately show ?thesis by simp
    qed
    have "attention_count l (take (Suc i) (n # ns))
        = (if startswith n ''a'' \<and> get_layer n = Inr l then 1 else 0)
          + attention_count l (take (Suc m) ns)"
      using Suc by (simp add: attention_count_Cons)
    with ih upd lenac show ?thesis using Suc els by (simp add: add.assoc)
  qed
qed

lemma layer_table_Inr:
  assumes "layer_table order = Inr (sn, mn, mx, lc, lh)"
  shows "sorted_nodes order = Inr sn" "min_layer order = Inr mn" "max_layer order = Inr mx"
    "count_layers mn sn (replicate (nat (mx - mn + 1)) 0) (replicate (nat (mx - mn + 1)) 0)
       = Inr (lc, lh)"
  using assms by (auto simp: layer_table_def bind_err_Inr Let_def)

lemma create_elements_Inr:
  assumes "layer_table order = Inr (sn, mn, mx, lc, lh)"
    and "create_elements order edges W H = Inr els"
  shows "sum_list lh \<noteq> 0"
    and "\<exists>nels. place_nodes W mn lc lh (sum_list lh) (H / real_of_int (sum_list lh))
             (replicate (nat (mx - mn + 1)) 0) sn = Inr nels
           \<and> els = nels @ map edge_element edges"
  using assms
  by (auto simp: create_elements_def bind_err_Inr Let_def py_truediv_def split: if_splits)

lemma layer_table_min:
  assumes "layer_table order = Inr (sn, mn, mx, lc, lh)"
  shows "\<forall>n\<in>set sn. \<forall>l. get_layer n = Inr l \<longrightarrow> mn \<le> l"
  using min_layer_le[OF layer_table_Inr(2)[OF assms]]
    sorted_nodes_set[OF layer_table_Inr(1)[OF assms]] by blast


lemma set_insort_desc: "set (insort_desc p qs) = insert p (set qs)"
  by (induction qs) auto

lemma sorted_insort_desc:
  "sorted_wrt (\<lambda>p q. fst q \<le> fst p) qs \<Longrightarrow> sorted_wrt (\<lambda>p q. fst q \<le> fst p) (insort_desc p qs)"
proof (induction qs)
  case Nil
  show ?case by simp
next
  case (Cons q qs)
  show ?case
  proof (cases "fst q \<le> fst p")
    case True
    with Cons.prems show ?thesis by (auto intro: order_trans)
  next
    case False
    then have "fst p \<le> fst q" by simp
    with Cons show ?thesis using False by (auto simp: set_insort_desc)
  qed
qed

lemma sorted_sort_desc: "sorted_wrt (\<lambda>p q. fst q \<le> fst p) (sort_desc ps)"
  unfolding sort_desc_def by (induction ps) (simp_all add: sorted_insort_desc)

lemma set_sort_desc: "set (sort_desc ps) = set ps"
  using mset_sort_desc[of ps] by (metis set_mset_mset)

lemma length_sort_desc: "length (sort_desc ps) = length ps"
  using mset_sort_desc[of ps] by (metis size_mset)

lemma map_err_zip:
  "map_err f xs = Inr ys \<Longrightarrow> (y, x) \<in> set (zip ys xs) \<Longrightarrow> f x = Inr y"
  by (auto simp: in_set_zip map_err_nth map_err_length)

lemma sorted_nodes_keys:
  assumes "sorted_nodes order = Inr sn" "i < j" "j < length sn"
  shows "\<exists>ki kj. sort_key (sn ! i) = Inr ki \<and> sort_key (sn ! j) = Inr kj \<and> kj \<le> ki"
proof -
  from assms(1) obtain ks where ks: "map_err sort_key order = Inr ks"
    and sn0: "sn = map snd (sort_desc (zip ks order))"
    by (auto simp: sorted_nodes_def bind_err_Inr)
  define ps where "ps = sort_desc (zip ks order)"
  have sn: "sn = map snd ps" by (simp add: sn0 ps_def)
  have len: "length ps = length sn" by (simp add: sn)
  have sets: "set ps = set (zip ks order)" by (simp add: ps_def set_sort_desc)
  have srt: "sorted_wrt (\<lambda>p q. fst q \<le> fst p) ps" by (simp add: ps_def sorted_sort_desc)
  have key: "sort_key (snd (ps ! k)) = Inr (fst (ps ! k))" if "k < length ps" for k
  proof -
    from that have "ps ! k \<in> set ps" by (rule nth_mem)
    then have "(fst (ps ! k), snd (ps ! k)) \<in> set (zip ks order)" by (simp only: sets prod.collapse)
    from map_err_zip[OF ks this] show ?thesis .
  qed
  have ij: "i < length ps" "j < length ps" using assms(2,3) len by simp_all
  have le: "fst (ps ! j) \<le> fst (ps ! i)"
    using srt assms(2) ij(2) by (simp add: sorted_wrt_iff_nth_less)
  have "sn ! i = snd (ps ! i)" "sn ! j = snd (ps ! j)"
    using ij by (simp_all add: sn)
  then have "sort_key (sn ! i) = Inr (fst (ps ! i))" "sort_key (sn ! j) = Inr (fst (ps ! j))"
    using key[OF ij(1)] key[OF ij(2)] by simp_all
  with le show ?thesis by blast
qed

lemma sort_key_attention:
  assumes "sort_key n = Inr k" "startswith n ''a''"
  shows "get_layer n = Inr (fst k) \<and> get_attention_head n = Inr (snd k)"
  using assms by (auto simp: sort_key_def bind_err_Inr)

lemma sorted_nodes_heads:
  assumes "sorted_nodes order = Inr sn" "i < j" "j < length sn"
    "startswith (sn ! i) ''a''" "startswith (sn ! j) ''a''"
    "get_layer (sn ! i) = Inr l" "get_layer (sn ! j) = Inr l"
  shows "\<exists>hi hj. get_attention_head (sn ! i) = Inr hi \<and> get_attention_head (sn ! j) = Inr hj
           \<and> hj \<le> hi"
proof -
  from sorted_nodes_keys[OF assms(1-3)] obtain ki kj where
    k: "sort_key (sn ! i) = Inr ki" "sort_key (sn ! j) = Inr kj" "kj \<le> ki" by blast
  from sort_key_attention[OF k(1) assms(4)] sort_key_attention[OF k(2) assms(5)] assms(6,7)
  have "fst ki = l" "fst kj = l" "get_attention_head (sn ! i) = Inr (snd ki)"
    "get_attention_head (sn ! j) = Inr (snd kj)" by simp_all
  moreover from this(1,2) k(3) have "snd kj \<le> snd ki"
    by (cases ki, cases kj) (simp add: less_eq_prod_def)
  ultimately show ?thesis by blast
qed

lemma attention_count_take_mono:
  assumes "i < j" "j < length ns" "startswith (ns ! j) ''a''" "get_layer (ns ! j) = Inr l"
  shows "attention_count l (take (Suc i) ns) < attention_count l (take (Suc j) ns)"
proof -
  have "take (Suc j) ns = take (Suc i) ns @ drop (Suc i) (take j ns) @ [ns ! j]"
  proof -
    have "take (Suc j) ns = take j ns @ [ns ! j]" using assms(2) by (simp add: take_Suc_conv_app_nth)
    moreover have "take j ns = take (Suc i) (take j ns) @ drop (Suc i) (take j ns)"
      by (rule append_take_drop_id[symmetric])
    moreover have "take (Suc i) (take j ns) = take (Suc i) ns" using assms(1) by (simp add: min_def)
    ultimately show ?thesis by simp
  qed
  then show ?thesis using assms(3,4) by (simp add: attention_count_def)
qed

lemma attention_le_layer_count: "attention_count l ns \<le> layer_count l ns"
  unfolding attention_count_def layer_count_def
  by (induction ns) auto


lemmas table_eval = layer_table_def sorted_nodes_def sort_key_def sort_desc_def min_layer_def
  max_layer_def finite_layers_def py_min_def py_max_def bind_err_def py_index_def

lemmas place_eval = create_elements_def node_x_def node_y_def py_take_def py_truediv_def
  node_type_def dict_get_def node_types_def centered_def edge_element_def edge_style_def
  bind_err_def py_index_def

lemma heads_table: "layer_table heads_order = Inr ([''a0.1'', ''a0.0'', ''m0-0''], 0, 0, [3], [1])"
  by (simp add: heads_order_def table_eval layer_eval)

lemma heads_created: "create_elements heads_order heads_edges 1400 800 = Inr heads_elements"
  by (simp add: heads_table place_eval layer_eval heads_edges_def heads_elements_def)

lemma marker_table: "layer_table marker_order = Inr ([''H'', ''m99-0''], 99, 100, [1, 0], [1, 0])"
  by (simp add: marker_order_def table_eval layer_eval Let_def numeral_2_eq_2)

lemma marker_created: "create_elements marker_order marker_edges 1400 800 = Inr marker_elements"
  by (simp add: marker_table place_eval layer_eval marker_edges_def marker_elements_def)

lemma deep_table:
  "layer_table deep_order = Inr ([''a100.1'', ''a100.0'', ''m99-0''], 99, 100, [1, 0], [1, 0])"
  by (simp add: deep_order_def table_eval layer_eval Let_def numeral_2_eq_2)

lemma deep_created: "create_elements deep_order deep_edges 1400 800 = Inr deep_elements"
  by (simp add: deep_table place_eval layer_eval deep_edges_def deep_elements_def)


lemma node_element_nth:
  assumes "layer_table order = Inr (sn, mn, mx, lc, lh)"
    and "create_elements order edges W H = Inr els"
    and "i < length sn" "get_layer (sn ! i) = Inr layer"
  shows "el_id (els ! i) = sn ! i
    \<and> pos_y (els ! i) =
        (if CHR ''H'' \<in> set (sn ! i)
         then node_y mn lh (sum_list lh) (H / real_of_int (sum_list lh)) layer
                - (H / real_of_int (sum_list lh)) / 4
         else node_y mn lh (sum_list lh) (H / real_of_int (sum_list lh)) layer)
    \<and> (layer = 100 \<longrightarrow> pos_x (els ! i) = W * 0.7)"
proof -
  from create_elements_Inr(2)[OF assms(1,2)] obtain nels where
    p: "place_nodes W mn lc lh (sum_list lh) (H / real_of_int (sum_list lh))
             (replicate (nat (mx - mn + 1)) 0) sn = Inr nels"
    and els: "els = nels @ map edge_element edges" by blast
  from place_nodes_length[OF p] assms(3) have "els ! i = nels ! i"
    by (simp add: els nth_append)
  with place_nodes_nth[OF p assms(3,4)] show ?thesis by simp
qed

text \<open>
  Claim C6.  The element of a node whose identifier contains \<open>H\<close> has a y
  coordinate that is a quarter of the vertical unit less than \<open>node_y\<close>, the value
  computed for the node before the adjustment; a node without \<open>H\<close> keeps
  \<open>node_y\<close>.  The vertical unit is the height divided by the total of the layer
  heights.
\<close>

theorem head_marker_shift:
  assumes "layer_table order = Inr (sn, mn, mx, lc, lh)"
    and "create_elements order edges W H = Inr els"
    and "i < length sn" and "get_layer (sn ! i) = Inr layer"
  shows "el_id (els ! i) = sn ! i
    \<and> pos_y (els ! i) =
        (if CHR ''H'' \<in> set (sn ! i)
         then node_y mn lh (sum_list lh) (H / real_of_int (sum_list lh)) layer
                - (H / real_of_int (sum_list lh)) / 4
         else node_y mn lh (sum_list lh) (H / real_of_int (sum_list lh)) layer)"
  using node_element_nth[OF assms] by simp

theorem head_marker_shift_witness:
  "layer_table marker_order = Inr ([''H'', ''m99-0''], 99, 100, [1, 0], [1, 0])
   \<and> create_elements marker_order marker_edges 1400 800 = Inr marker_elements
   \<and> (0::nat) < length [''H'', ''m99-0''] \<and> get_layer ([''H'', ''m99-0''] ! 0) = Inr 100
   \<and> CHR ''H'' \<in> set ([''H'', ''m99-0''] ! 0)
   \<and> pos_y (marker_elements ! 0) = node_y 99 [1, 0] 1 800 100 - 800 / 4"
proof -
  have l: "get_layer ([''H'', ''m99-0''] ! 0) = Inr 100" by (simp add: layer_eval)
  have n: "(0::nat) < length [''H'', ''m99-0'']" by simp
  from head_marker_shift[OF marker_table marker_created n l]
  show ?thesis using marker_table marker_created l by simp
qed

text \<open>
  Claim C7, as stated, fails: the node \<open>H\<close> has layer 100 and its y coordinate is
  not 20, because the adjustment for identifiers that contain \<open>H\<close> is applied to
  every node, the nodes of layer 100 included.
\<close>

theorem sentinel_marker_shifted:
  "get_layer ''H'' = Inr 100
   \<and> create_elements marker_order marker_edges 1400 800
       = Inr [NodeElement ''H'' ''H'' ''default'' 980 (- 180) [],
              NodeElement ''m99-0'' ''m99-0'' ''MLP'' 70 400 (centered ''#6ede87'' 50),
              EdgeElement ''m99-0-H'' ''m99-0'' ''H'' ''smoothstep'' True edge_style]"
  using marker_created by (simp add: marker_elements_def layer_eval)

text \<open>
  Claim C7, amended.  A node of layer 100 has x coordinate \<open>0.7 W\<close>; its y
  coordinate is 20 when its identifier does not contain \<open>H\<close>, and 20 less a quarter
  of the vertical unit when it does.
\<close>

theorem sentinel_position:
  assumes "layer_table order = Inr (sn, mn, mx, lc, lh)"
    and "create_elements order edges W H = Inr els"
    and "i < length sn" and "get_layer (sn ! i) = Inr 100"
  shows "el_id (els ! i) = sn ! i \<and> pos_x (els ! i) = W * 0.7
    \<and> pos_y (els ! i) =
        (if CHR ''H'' \<in> set (sn ! i) then 20 - (H / real_of_int (sum_list lh)) / 4 else 20)"
  using node_element_nth[OF assms] by (simp add: node_y_def)

theorem sentinel_position_witness:
  "layer_table deep_order = Inr ([''a100.1'', ''a100.0'', ''m99-0''], 99, 100, [1, 0], [1, 0])
   \<and> create_elements deep_order deep_edges 1400 800 = Inr deep_elements
   \<and> (1::nat) < length [''a100.1'', ''a100.0'', ''m99-0'']
   \<and> get_layer ([''a100.1'', ''a100.0'', ''m99-0''] ! 1) = Inr 100
   \<and> pos_x (deep_elements ! 1) = 1400 * 0.7 \<and> pos_y (deep_elements ! 1) = 20"
proof -
  have l: "get_layer ([''a100.1'', ''a100.0'', ''m99-0''] ! 1) = Inr 100" by (simp add: layer_eval)
  have n: "(1::nat) < length [''a100.1'', ''a100.0'', ''m99-0'']" by simp
  from sentinel_position[OF deep_table deep_created n l]
  show ?thesis using deep_table deep_created l by simp
qed


lemma attention_x:
  assumes lt: "layer_table order = Inr (sn, mn, mx, lc, lh)"
    and ce: "create_elements order edges W H = Inr els"
    and i: "i < length sn" "startswith (sn ! i) ''a''" "get_layer (sn ! i) = Inr l" "l \<noteq> 100"
  shows "pos_x (els ! i) = W * 0.85
        - real (attention_count l (take (Suc i) sn)) * (W * 0.8) / real (layer_count l sn + 1)"
proof -
  let ?zeros = "replicate (nat (mx - mn + 1)) (0::int)"
  from create_elements_Inr(2)[OF lt ce] obtain nels where
    p: "place_nodes W mn lc lh (sum_list lh) (H / real_of_int (sum_list lh)) ?zeros sn = Inr nels"
    and els: "els = nels @ map edge_element edges" by blast
  from place_nodes_length[OF p] i(1) have e: "els ! i = nels ! i"
    by (simp add: els nth_append)
  note mn = layer_table_min[OF lt]
  from mn i(1,3) have mnl: "mn \<le> l" by (metis nth_mem)
  from place_nodes_attention[OF p mn i(1,3,4,2)]
  have k: "nat (l - mn) < length ?zeros"
    and x: "pos_x (nels ! i) = W * 0.85
        - real_of_int (?zeros ! nat (l - mn) + int (attention_count l (take (Suc i) sn)))
            * (W * 0.8) / real_of_int (lc ! nat (l - mn) + 1)"
    by simp_all
  from count_layers_spec[OF layer_table_Inr(4)[OF lt] mn] i(4) mnl k
  have "lc ! nat (l - mn) = ?zeros ! nat (l - mn) + int (layer_count l sn)" by blast
  moreover from k have "?zeros ! nat (l - mn) = 0" by simp
  ultimately show ?thesis using x e by simp
qed

text \<open>
  Claim C5, amended.  For a positive width and a layer other than 100, the attention
  node at position \<open>i\<close> of the sorted order has x coordinate
  \<open>0.85 W - k 0.8 W / (c + 1)\<close>, where \<open>k\<close> counts the attention nodes of its layer
  up to and including position \<open>i\<close> and \<open>c\<close> counts all nodes of that layer.  Of two
  attention nodes of one layer the later one has the greater \<open>k\<close>, the smaller x
  coordinate and a head index that is not greater; \<open>k\<close> never exceeds \<open>c\<close>.
\<close>

theorem attention_x_strictly_decreasing:
  assumes "layer_table order = Inr (sn, mn, mx, lc, lh)"
    and "create_elements order edges W H = Inr els"
    and "0 < W" and "l \<noteq> 100"
    and "i < j" and "j < length sn"
    and "startswith (sn ! i) ''a''" and "get_layer (sn ! i) = Inr l"
    and "startswith (sn ! j) ''a''" and "get_layer (sn ! j) = Inr l"
  shows "pos_x (els ! i) = W * 0.85
          - real (attention_count l (take (Suc i) sn)) * (W * 0.8) / real (layer_count l sn + 1)
    \<and> pos_x (els ! j) = W * 0.85
          - real (attention_count l (take (Suc j) sn)) * (W * 0.8) / real (layer_count l sn + 1)
    \<and> attention_count l (take (Suc i) sn) < attention_count l (take (Suc j) sn)
    \<and> attention_count l sn < layer_count l sn + 1
    \<and> pos_x (els ! j) < pos_x (els ! i)
    \<and> (\<exists>hi hj. get_attention_head (sn ! i) = Inr hi \<and> get_attention_head (sn ! j) = Inr hj
          \<and> hj \<le> hi)"
proof -
  from assms(5,6) have i: "i < length sn" by simp
  note xi = attention_x[OF assms(1,2) i assms(7,8,4)]
  note xj = attention_x[OF assms(1,2,6,9,10,4)]
  note cnt = attention_count_take_mono[OF assms(5,6,9,10)]
  have le: "attention_count l sn < layer_count l sn + 1"
    using attention_le_layer_count[of l sn] by simp
  have "real (attention_count l (take (Suc i) sn)) * (W * 0.8) / real (layer_count l sn + 1)
      < real (attention_count l (take (Suc j) sn)) * (W * 0.8) / real (layer_count l sn + 1)"
    using cnt assms(3) by (intro divide_strict_right_mono mult_strict_right_mono) simp_all
  then have lt: "pos_x (els ! j) < pos_x (els ! i)" unfolding xi xj by simp
  from sorted_nodes_heads[OF layer_table_Inr(1)[OF assms(1)] assms(5,6,7,9,8,10)]
  have hd: "\<exists>hi hj. get_attention_head (sn ! i) = Inr hi \<and> get_attention_head (sn ! j) = Inr hj
          \<and> hj \<le> hi" .
  from xi xj cnt le lt hd show ?thesis by blast
qed

theorem attention_x_strictly_decreasing_witness:
  "layer_table heads_order = Inr ([''a0.1'', ''a0.0'', ''m0-0''], 0, 0, [3], [1])
   \<and> create_elements heads_order heads_edges 1400 800 = Inr heads_elements
   \<and> (0::real) < 1400 \<and> (0::int) \<noteq> 100 \<and> (0::nat) < 1
   \<and> 1 < length [''a0.1'', ''a0.0'', ''m0-0'']
   \<and> startswith ([''a0.1'', ''a0.0'', ''m0-0''] ! 0) ''a''
   \<and> get_layer ([''a0.1'', ''a0.0'', ''m0-0''] ! 0) = Inr 0
   \<and> startswith ([''a0.1'', ''a0.0'', ''m0-0''] ! 1) ''a''
   \<and> get_layer ([''a0.1'', ''a0.0'', ''m0-0''] ! 1) = Inr 0
   \<and> pos_x (heads_elements ! 1) < pos_x (heads_elements ! 0)"
proof -
  have h: "(0::real) < 1400" "(0::int) \<noteq> 100" "(0::nat) < 1"
    "1 < length [''a0.1'', ''a0.0'', ''m0-0'']"
    "startswith ([''a0.1'', ''a0.0'', ''m0-0''] ! 0) ''a''"
    "get_layer ([''a0.1'', ''a0.0'', ''m0-0''] ! 0) = Inr 0"
    "startswith ([''a0.1'', ''a0.0'', ''m0-0''] ! 1) ''a''"
    "get_layer ([''a0.1'', ''a0.0'', ''m0-0''] ! 1) = Inr 0"
    by (simp_all add: layer_eval)
  from attention_x_strictly_decreasing[OF heads_table heads_created h]
  have "pos_x (heads_elements ! 1) < pos_x (heads_elements ! 0)" by blast
  with heads_table heads_created h show ?thesis by blast
qed

text \<open>
  Claim C5, as stated, fails in layer 100: \<open>a100.1\<close> and \<open>a100.0\<close> are attention
  nodes of one layer and both are placed at \<open>x = 0.7 W\<close>.
\<close>

theorem sentinel_layer_heads_share_x:
  "get_layer ''a100.1'' = Inr 100 \<and> get_layer ''a100.0'' = Inr 100
   \<and> create_elements deep_order deep_edges 1400 800
       = Inr [NodeElement ''a100.1'' ''a100.1'' ''Attention'' 980 20 (centered ''#ff9a3c'' 50),
              NodeElement ''a100.0'' ''a100.0'' ''Attention'' 980 20 (centered ''#ff9a3c'' 50),
              NodeElement ''m99-0'' ''m99-0'' ''MLP'' 70 400 (centered ''#6ede87'' 50),
              EdgeElement ''a100.0-m99-0'' ''a100.0'' ''m99-0'' ''smoothstep'' True edge_style,
              EdgeElement ''a100.1-m99-0'' ''a100.1'' ''m99-0'' ''smoothstep'' True edge_style]"
  using deep_created by (simp add: deep_elements_def layer_eval)

subsection \<open>The documented example\<close>

lemma sum_list_update_int:
  fixes xs :: "int list"
  shows "k < length xs \<Longrightarrow> sum_list (xs[k := x]) = sum_list xs + x - xs ! k"
  by (induction xs arbitrary: k) (auto split: nat.splits)

lemma three_orders:
  assumes "distinct xs" "set xs = {a, b, c}" "a \<noteq> b" "a \<noteq> c" "b \<noteq> c"
  shows "xs \<in> {[a, b, c], [a, c, b], [b, a, c], [b, c, a], [c, a, b], [c, b, a]}"
proof -
  have "length xs = 3" using assms distinct_card[of xs] by simp
  then obtain x y z where xs: "xs = [x, y, z]"
    by (auto simp: numeral_3_eq_3 length_Suc_conv)
  have mem: "x \<in> {a, b, c}" "y \<in> {a, b, c}" "z \<in> {a, b, c}"
    using assms(2) unfolding xs by auto
  have neq: "x \<noteq> y" "x \<noteq> z" "y \<noteq> z" using assms(1) unfolding xs by auto
  from mem neq show ?thesis unfolding xs by auto
qed


lemma example_nodes: "nodes_of example_edges = {''a0.1'', ''m0-0'', ''resid_post''}"
  by (auto simp: nodes_of_def example_edges_def)

lemma example_sorted:
  assumes "order \<in> {[''a0.1'', ''m0-0'', ''resid_post''], [''a0.1'', ''resid_post'', ''m0-0''],
     [''m0-0'', ''a0.1'', ''resid_post''], [''m0-0'', ''resid_post'', ''a0.1''],
     [''resid_post'', ''a0.1'', ''m0-0''], [''resid_post'', ''m0-0'', ''a0.1'']}"
  shows "sorted_nodes order = Inr [''resid_post'', ''a0.1'', ''m0-0'']"
    and "min_layer order = Inr 0" and "max_layer order = Inr 100"
  using assms
  by (auto simp: sorted_nodes_def sort_key_def sort_desc_def min_layer_def max_layer_def
      finite_layers_def py_min_def py_max_def bind_err_def layer_eval)

lemma example_counts:
  "count_layers 0 [''resid_post'', ''a0.1'', ''m0-0''] (replicate 101 0) (replicate 101 0)
     = Inr ((replicate 101 0)[0 := 2], (replicate 101 0)[0 := 1])"
  by (simp add: layer_eval py_index_def)

lemma example_table:
  assumes "order \<in> {[''a0.1'', ''m0-0'', ''resid_post''], [''a0.1'', ''resid_post'', ''m0-0''],
     [''m0-0'', ''a0.1'', ''resid_post''], [''m0-0'', ''resid_post'', ''a0.1''],
     [''resid_post'', ''a0.1'', ''m0-0''], [''resid_post'', ''m0-0'', ''a0.1'']}"
  shows "layer_table order = Inr ([''resid_post'', ''a0.1'', ''m0-0''], 0, 100,
           (replicate 101 0)[0 := 2], (replicate 101 0)[0 := 1])"
  by (simp add: layer_table_def example_sorted[OF assms] example_counts bind_err_def Let_def
      del: count_layers.simps)

lemma example_placed:
  "place_nodes W 0 ((replicate 101 0)[0 := 2]) ((replicate 101 0)[0 := 1]) 1 H
      (replicate 101 0) [''resid_post'', ''a0.1'', ''m0-0'']
     = Inr (take 3 (example_elements W H))"
  by (simp add: layer_eval py_index_def node_x_def node_y_def bind_err_def py_take_def
      py_truediv_def node_type_def dict_get_def node_types_def centered_def
      example_elements_def)

lemma example_created:
  assumes "layer_table order = Inr ([''resid_post'', ''a0.1'', ''m0-0''], 0, 100,
           (replicate 101 0)[0 := 2], (replicate 101 0)[0 := 1])"
  shows "create_elements order example_edges W H = Inr (example_elements W H)"
proof -
  have s: "sum_list ((replicate 101 (0::int))[0 := 1]) = 1"
    by (simp add: sum_list_update_int sum_list_replicate)
  have "create_elements order example_edges W H
      = Inr (take 3 (example_elements W H) @ map edge_element example_edges)"
    by (simp add: create_elements_def assms s bind_err_def py_truediv_def example_placed
        del: place_nodes.simps)
  also have "take 3 (example_elements W H) @ map edge_element example_edges
      = example_elements W H"
    by (simp add: example_elements_def example_edges_def edge_element_def edge_style_def)
  finally show ?thesis .
qed

text \<open>
  Claim C8.  For the edges \<open>(a0.1, m0-0)\<close> and \<open>(m0-0, resid_post)\<close> the node set
  is \<open>{a0.1, m0-0, resid_post}\<close>, and whatever the order in which the set is
  iterated, \<open>create_elements\<close> returns three node elements, one for each node,
  followed by the two edge elements with ids \<open>a0.1-m0-0\<close> and \<open>m0-0-resid_post\<close>.
\<close>

theorem example_graph_elements:
  "nodes_of example_edges = {''a0.1'', ''m0-0'', ''resid_post''}
   \<and> (\<forall>order. iterates order example_edges \<longrightarrow>
          create_elements order example_edges W H = Inr (example_elements W H))"
proof (intro conjI allI impI)
  show "nodes_of example_edges = {''a0.1'', ''m0-0'', ''resid_post''}" by (rule example_nodes)
next
  fix order assume "iterates order example_edges"
  then have "distinct order" "set order = {''a0.1'', ''m0-0'', ''resid_post''}"
    by (simp_all add: iterates_def example_nodes)
  then have "order \<in> {[''a0.1'', ''m0-0'', ''resid_post''], [''a0.1'', ''resid_post'', ''m0-0''],
     [''m0-0'', ''a0.1'', ''resid_post''], [''m0-0'', ''resid_post'', ''a0.1''],
     [''resid_post'', ''a0.1'', ''m0-0''], [''resid_post'', ''m0-0'', ''a0.1'']}"
    by (intro three_orders) simp_all
  then show "create_elements order example_edges W H = Inr (example_elements W H)"
    by (intro example_created example_table)
qed

theorem example_graph_elements_witness:
  "iterates [''a0.1'', ''m0-0'', ''resid_post''] example_edges
   \<and> create_elements [''a0.1'', ''m0-0'', ''resid_post''] example_edges 1400 800
       = Inr (example_elements 1400 800)
   \<and> map el_id (example_elements 1400 800)
       = [''resid_post'', ''a0.1'', ''m0-0'', ''a0.1-m0-0'', ''m0-0-resid_post'']"
proof -
  have h: "iterates [''a0.1'', ''m0-0'', ''resid_post''] example_edges"
    by (simp add: iterates_def example_nodes)
  with example_graph_elements[of 1400 800] show ?thesis
    by (simp add: example_elements_def)
qed

subsection \<open>Inputs on which the layout raises\<close>

text \<open>
  Claim C1 does not hold of the code.  A text without edge lines parses to the empty
  edge list, whose node set is empty, and \<open>create_elements\<close> raises \<open>ValueError\<close> at
  the \<open>min\<close> of line 92.  A text whose only edge joins \<open>resid_post\<close> to itself gives
  a node set in which every node has layer 100; no layer gets a height, and
  \<open>create_elements\<close> raises \<open>ZeroDivisionError\<close> at line 105.
\<close>

theorem create_elements_raises:
  "gv_to_edges (UploadedFile []) = [] \<and> iterates [] []
   \<and> create_elements [] [] W H = Inl ValueError
   \<and> gv_to_edges (UploadedFile sink_text) = [(''resid_post'', ''resid_post'')]
   \<and> iterates [''resid_post''] [(''resid_post'', ''resid_post'')]
   \<and> create_elements [''resid_post''] [(''resid_post'', ''resid_post'')] W H
       = Inl ZeroDivisionError"
  by (simp add: parse_eval sink_text_def iterates_def nodes_of_def table_eval place_eval
      layer_eval Let_def)

text \<open>
  Claim C2 does not hold of the code.  The filter of lines 92 and 93 compares a layer
  with \<open>float('-inf')\<close> and so removes no layer: the layers that enter \<open>min\<close> and
  \<open>max\<close> are the layers of all nodes.  For the nodes \<open>m0-0\<close> and \<open>resid_post\<close> the
  greatest layer is the sentinel 100, not 0.
\<close>

theorem sentinel_counted_in_layer_range:
  "finite_layers order = map_err get_layer order
   \<and> get_layer ''m0-0'' = Inr 0 \<and> get_layer ''resid_post'' = Inr 100
   \<and> min_layer [''m0-0'', ''resid_post''] = Inr 0
   \<and> max_layer [''m0-0'', ''resid_post''] = Inr 100"
  by (simp add: finite_layers_all min_layer_def max_layer_def py_min_def py_max_def
      bind_err_def layer_eval)
end
